theory Spec2Isabelle
  imports Main "HOL-Library.Stream"
begin

section \<open>Data model of \<^verbatim>\<open>src/app/page.tsx\<close>\<close>

text \<open>
  \<^verbatim>\<open>type GridCell = { x: number; y: number }\<close>. The coordinates the program computes are
  integers (they start as integers and change by \<open>\<plusminus>1\<close>), so they are modelled as \<open>int\<close>.
\<close>

datatype GridCell = GridCell (cell_x: int) (cell_y: int)

datatype Direction = Up | Down | Left | Right

datatype GameStatus = Idle | Running | Over

definition BOARD_SIZE :: int where
  "BOARD_SIZE = 20"

definition LOCAL_STORAGE_KEY :: string where
  "LOCAL_STORAGE_KEY = ''snakeHighScore''"

text \<open>
  The program keys its \<^verbatim>\<open>Set<string>\<close> of occupied cells by the template string
  \<^verbatim>\<open>`${x},${y}`\<close>. Two such strings are equal exactly when both integers are equal, so the
  key is modelled as the pair of coordinates and the set of strings as a set of pairs.
\<close>

definition cellKey :: "GridCell \<Rightarrow> int \<times> int" where
  "cellKey c = (cell_x c, cell_y c)"

text \<open>
  The writes the program issues to \<^verbatim>\<open>localStorage\<close>, in order. \<open>SetItem k n\<close> stands for
  \<^verbatim>\<open>localStorage.setItem(k, String(n))\<close>.
\<close>

datatype storage_op = SetItem string int | RemoveItem string

text \<open>
  The state of the \<^verbatim>\<open>Page\<close> component: its six \<^verbatim>\<open>useState\<close> cells, the ref
  \<^verbatim>\<open>pendingDirectionRef\<close> (\<open>None\<close> is \<^verbatim>\<open>null\<close>) and the log of storage writes.
\<close>

record state =
  snakeSegments :: "GridCell list"
  movementDirection :: Direction
  foodCell :: GridCell
  gameStatus :: GameStatus
  score :: int
  highScore :: int
  pendingDirection :: "Direction option"
  storageLog :: "storage_op list"

text \<open>The initial values of the \<^verbatim>\<open>useState\<close> and \<^verbatim>\<open>useRef\<close> calls (lines 24--35).\<close>

definition initialState :: state where
  "initialState =
     \<lparr> snakeSegments = [GridCell (BOARD_SIZE div 2 - 1) (BOARD_SIZE div 2),
                        GridCell (BOARD_SIZE div 2) (BOARD_SIZE div 2)],
       movementDirection = Right,
       foodCell = GridCell 5 5,
       gameStatus = Idle,
       score = 0,
       highScore = 0,
       pendingDirection = None,
       storageLog = [] \<rparr>"

section \<open>Random food placement\<close>

text \<open>
  \<^verbatim>\<open>getRandomEmptyCell\<close> (lines 14--21) is a \<^verbatim>\<open>while (true)\<close> loop that draws
  \<^verbatim>\<open>Math.floor(Math.random() * BOARD_SIZE)\<close> twice per iteration and returns the drawn cell
  as soon as its key is not in \<open>occupied\<close>. The random source is made explicit: a stream of
  the successive values of \<^verbatim>\<open>Math.floor(Math.random() * BOARD_SIZE)\<close>, of which each
  iteration consumes two. The function returns the cell together with the rest of the
  stream; \<open>None\<close> means that the loop never returns.
\<close>

partial_function (option) getRandomEmptyCell ::
    "(int \<times> int) set \<Rightarrow> int stream \<Rightarrow> (GridCell \<times> int stream) option" where
  "getRandomEmptyCell occupied rnd =
     (let x = shd rnd;
          y = shd (stl rnd);
          key = (x, y)
      in if key \<notin> occupied then Some (GridCell x y, stl (stl rnd))
         else getRandomEmptyCell occupied (stl (stl rnd)))"

section \<open>Operations\<close>

text \<open>
  Every operation takes the state as of the last render. The callbacks are closures over the
  values of that render, so a \<^verbatim>\<open>setX(...)\<close> call inside a callback changes the next state
  but not the value of \<^verbatim>\<open>x\<close> that the rest of the same callback reads. An operation that
  places food also takes the random source and returns what is left of it, and returns
  \<open>None\<close> when the placement loop does not return.
\<close>

text \<open>\<^verbatim>\<open>startGame\<close>, lines 52--63.\<close>

definition startGame :: "int stream \<Rightarrow> state \<Rightarrow> (state \<times> int stream) option" where
  "startGame rnd s =
     (let initialSnake = [GridCell (BOARD_SIZE div 2 - 1) (BOARD_SIZE div 2),
                          GridCell (BOARD_SIZE div 2) (BOARD_SIZE div 2)];
          occupied = set (map cellKey initialSnake)
      in case getRandomEmptyCell occupied rnd of
           None \<Rightarrow> None
         | Some (food, rnd') \<Rightarrow>
             Some (s\<lparr> snakeSegments := initialSnake,
                      movementDirection := Right,
                      foodCell := food,
                      score := 0,
                      gameStatus := Running \<rparr>, rnd'))"

text \<open>\<^verbatim>\<open>endGame\<close>, lines 65--71.\<close>

definition endGame :: "state \<Rightarrow> state" where
  "endGame s =
     (let s1 = s\<lparr> gameStatus := Over \<rparr>
      in if score s > highScore s
         then s1\<lparr> highScore := score s,
                  storageLog := storageLog s1 @ [SetItem LOCAL_STORAGE_KEY (score s)] \<rparr>
         else s1)"

text \<open>The four assignments to \<^verbatim>\<open>nextHead\<close>, lines 84--88.\<close>

fun nextHeadOf :: "Direction \<Rightarrow> GridCell \<Rightarrow> GridCell" where
  "nextHeadOf Up head = GridCell (cell_x head) (cell_y head - 1)"
| "nextHeadOf Down head = GridCell (cell_x head) (cell_y head + 1)"
| "nextHeadOf Left head = GridCell (cell_x head - 1) (cell_y head)"
| "nextHeadOf Right head = GridCell (cell_x head + 1) (cell_y head)"

text \<open>
  \<^verbatim>\<open>step\<close>, lines 73--120; \<open>applyPending\<close> is its lines 77--81. The updater passed to
  \<^verbatim>\<open>setSnakeSegments\<close> receives the current snake; \<^verbatim>\<open>movementDirection\<close>,
  \<^verbatim>\<open>foodCell\<close> and (inside \<^verbatim>\<open>endGame\<close>) \<^verbatim>\<open>score\<close> and \<^verbatim>\<open>highScore\<close> are the
  values of the render that created the callback, which are the fields of \<open>s\<close>. In
  particular \<^verbatim>\<open>setMovementDirection\<close> on line 79 sets the direction of the next state,
  while lines 85--88 read the \<^verbatim>\<open>movementDirection\<close> of \<open>s\<close>.
\<close>

definition applyPending :: "state \<Rightarrow> state" where
  "applyPending s =
     (case pendingDirection s of
        Some d \<Rightarrow> s\<lparr> movementDirection := d, pendingDirection := None \<rparr>
      | None \<Rightarrow> s)"

definition step :: "int stream \<Rightarrow> state \<Rightarrow> (state \<times> int stream) option" where
  "step rnd s =
     (let currentSnake = snakeSegments s in
      if currentSnake = [] then Some (s, rnd)
      else
        let s1 = applyPending s;
            head = last currentSnake;
            nextHead = nextHeadOf (movementDirection s) head
        in if cell_x nextHead < 0 \<or> cell_y nextHead < 0 \<or>
              cell_x nextHead \<ge> BOARD_SIZE \<or> cell_y nextHead \<ge> BOARD_SIZE
           then Some (endGame s1, rnd)
           else
             let occupied = set (map cellKey currentSnake)
             in if cellKey nextHead \<in> occupied
                then Some (endGame s1, rnd)
                else
                  let willEat = (cell_x nextHead = cell_x (foodCell s) \<and>
                                 cell_y nextHead = cell_y (foodCell s));
                      appended = currentSnake @ [nextHead];
                      newSnake = (if \<not> willEat then tl appended else appended)
                  in if willEat
                     then
                       (let newOccupied = set (map cellKey newSnake)
                        in case getRandomEmptyCell newOccupied rnd of
                             None \<Rightarrow> None
                           | Some (food, rnd') \<Rightarrow>
                               Some (s1\<lparr> score := score s1 + 1,
                                         foodCell := food,
                                         snakeSegments := newSnake \<rparr>, rnd'))
                     else Some (s1\<lparr> snakeSegments := newSnake \<rparr>, rnd))"

text \<open>
  The timer, lines 129--142: \<^verbatim>\<open>setInterval(step, speedMs)\<close> is installed only while
  \<^verbatim>\<open>gameStatus === "running"\<close> and is cleared otherwise, so the timer runs \<^verbatim>\<open>step\<close>
  in the running status and nothing in any other.
\<close>

definition timerTick :: "int stream \<Rightarrow> state \<Rightarrow> (state \<times> int stream) option" where
  "timerTick rnd s = (if gameStatus s \<noteq> Running then Some (s, rnd) else step rnd s)"

text \<open>\<^verbatim>\<open>speedMs\<close>, lines 123--127; \<^verbatim>\<open>Math.floor(score / 5)\<close> on an integer is \<open>div\<close>.\<close>

definition speedMs :: "int \<Rightarrow> int" where
  "speedMs sc =
     (let base = 140;
          speedup = min 80 (sc div 5 * 10)
      in max 60 (base - speedup))"

text \<open>The reversal test shared by lines 161--166 and 177--182.\<close>

definition isReversal :: "Direction \<Rightarrow> Direction \<Rightarrow> bool" where
  "isReversal cur nxt \<longleftrightarrow>
     (cur = Up \<and> nxt = Down) \<or> (cur = Down \<and> nxt = Up) \<or>
     (cur = Left \<and> nxt = Right) \<or> (cur = Right \<and> nxt = Left)"

text \<open>\<^verbatim>\<open>setDirectionImmediate\<close>, lines 175--186.\<close>

definition setDirectionImmediate :: "Direction \<Rightarrow> state \<Rightarrow> state" where
  "setDirectionImmediate nxt s =
     (if gameStatus s \<noteq> Running then s
      else if isReversal (movementDirection s) nxt then s
      else s\<lparr> pendingDirection := Some nxt \<rparr>)"

text \<open>The \<^verbatim>\<open>onClick\<close> of the ``End Game'' button, line 237.\<close>

definition endGameClick :: "state \<Rightarrow> state" where
  "endGameClick s = s\<lparr> gameStatus := Over \<rparr>"

text \<open>The \<^verbatim>\<open>onClick\<close> of the ``Reset Best'' button, line 239.\<close>

definition resetBest :: "state \<Rightarrow> state" where
  "resetBest s = s\<lparr> highScore := 0, storageLog := storageLog s @ [RemoveItem LOCAL_STORAGE_KEY] \<rparr>"

text \<open>
  The \<^verbatim>\<open>keydown\<close> handler, lines 146--170. \<^verbatim>\<open>toLowerCase\<close> is modelled on the
  letters \<open>A\<close>--\<open>Z\<close>, which is all the comparisons of the handler depend on.
\<close>

definition toLowerCase :: "string \<Rightarrow> string" where
  "toLowerCase k =
     map (\<lambda>c. if 65 \<le> (of_char c :: nat) \<and> (of_char c :: nat) \<le> 90
              then char_of (of_char c + 32 :: nat) else c) k"

definition keydown :: "string \<Rightarrow> int stream \<Rightarrow> state \<Rightarrow> (state \<times> int stream) option" where
  "keydown k rnd s =
     (if gameStatus s = Idle \<and> (k = '' '' \<or> k = ''Enter'') then startGame rnd s
      else if gameStatus s \<noteq> Running then Some (s, rnd)
      else
        let key = toLowerCase k;
            n0 = None;
            n1 = (if key = ''w'' \<or> key = ''arrowup'' then Some Up else n0);
            n2 = (if key = ''s'' \<or> key = ''arrowdown'' then Some Down else n1);
            n3 = (if key = ''a'' \<or> key = ''arrowleft'' then Some Left else n2);
            nxt = (if key = ''d'' \<or> key = ''arrowright'' then Some Right else n3)
        in case nxt of
             None \<Rightarrow> Some (s, rnd)
           | Some d \<Rightarrow>
               if isReversal (movementDirection s) d then Some (s, rnd)
               else Some (s\<lparr> pendingDirection := Some d \<rparr>, rnd))"

section \<open>Events and reachable states\<close>

text \<open>
  The events that change the state: the timer, a key press, a click on one of the four
  direction buttons, and the three buttons below the board. ``Start Game''/``Play Again'' is
  rendered only while the game is not running and ``End Game'' only while it is
  (lines 232--238).
\<close>

datatype event =
  Timer | Key string | Dpad Direction | StartButton | EndButton | ResetButton

fun fire :: "event \<Rightarrow> int stream \<Rightarrow> state \<Rightarrow> (state \<times> int stream) option" where
  "fire Timer rnd s = timerTick rnd s"
| "fire (Key k) rnd s = keydown k rnd s"
| "fire (Dpad d) rnd s = Some (setDirectionImmediate d s, rnd)"
| "fire StartButton rnd s = (if gameStatus s \<noteq> Running then startGame rnd s else Some (s, rnd))"
| "fire EndButton rnd s = (if gameStatus s \<noteq> Running then Some (s, rnd) else Some (endGameClick s, rnd))"
| "fire ResetButton rnd s = Some (resetBest s, rnd)"

text \<open>
  The states reachable from a start of the game: \<^verbatim>\<open>startGame\<close> from any state and with any
  random source, followed by any events, each with any random source.
\<close>

inductive reachable :: "state \<Rightarrow> bool" where
  start: "startGame rnd s = Some (s', rnd') \<Longrightarrow> reachable s'"
| event: "reachable s \<Longrightarrow> fire e rnd s = Some (s', rnd') \<Longrightarrow> reachable s'"

text \<open>
  The \<open>n\<close>-th cell key drawn by \<^verbatim>\<open>getRandomEmptyCell\<close> from a random source: its
  \<open>n\<close>-th iteration reads the elements \<open>2n\<close> and \<open>2n + 1\<close> of the stream.
\<close>

definition drawnKey :: "int stream \<Rightarrow> nat \<Rightarrow> int \<times> int" where
  "drawnKey rnd n = (rnd !! (2 * n), rnd !! (2 * n + 1))"

text \<open>A cell lies on the board.\<close>

definition onBoard :: "GridCell \<Rightarrow> bool" where
  "onBoard c \<longleftrightarrow> 0 \<le> cell_x c \<and> cell_x c < BOARD_SIZE \<and> 0 \<le> cell_y c \<and> cell_y c < BOARD_SIZE"

section \<open>Auxiliary definitions for the statements\<close>

text \<open>The opposite of a direction, in the words of the specification.\<close>

fun opposite :: "Direction \<Rightarrow> Direction" where
  "opposite Up = Down"
| "opposite Down = Up"
| "opposite Left = Right"
| "opposite Right = Left"

text \<open>
  The invariant of the board: a snake of at least two cells, on the board, without
  repetition, and the food on none of its cells.
\<close>

definition snakeInv :: "state \<Rightarrow> bool" where
  "snakeInv s \<longleftrightarrow>
     2 \<le> length (snakeSegments s) \<and>
     (\<forall>c \<in> set (snakeSegments s). onBoard c) \<and> distinct (snakeSegments s) \<and>
     foodCell s \<notin> set (snakeSegments s)"

text \<open>A random source that draws \<open>0\<close> for ever.\<close>

definition zeros :: "int stream" where
  "zeros = sconst 0"

text \<open>Example states.\<close>

definition runningStart :: state where
  "runningStart =
     \<lparr> snakeSegments = [GridCell 9 10, GridCell 10 10], movementDirection = Right,
       foodCell = GridCell 5 5, gameStatus = Running, score = 0, highScore = 0,
       pendingDirection = None, storageLog = [] \<rparr>"

definition turnUpPending :: state where
  "turnUpPending = runningStart\<lparr> pendingDirection := Some Up \<rparr>"

definition turnUpCommitted :: state where
  "turnUpCommitted =
     runningStart\<lparr> snakeSegments := [GridCell 10 10, GridCell 11 10], movementDirection := Up \<rparr>"

definition forfeitState :: state where
  "forfeitState = runningStart\<lparr> score := 12, highScore := 10 \<rparr>"

definition tailChase :: state where
  "tailChase =
     \<lparr> snakeSegments = [GridCell 5 5, GridCell 6 5, GridCell 6 6, GridCell 5 6],
       movementDirection = Up, foodCell = GridCell 0 0, gameStatus = Running, score = 2,
       highScore = 0, pendingDirection = None, storageLog = [] \<rparr>"

definition aboutToEat :: state where
  "aboutToEat = runningStart\<lparr> foodCell := GridCell 11 10 \<rparr>"

definition lowScoreState :: state where
  "lowScoreState = runningStart\<lparr> score := 5, highScore := 10 \<rparr>"

definition afterStart :: state where
  "afterStart = initialState\<lparr> foodCell := GridCell 0 0, gameStatus := Running \<rparr>"

definition afterFirstTick :: state where
  "afterFirstTick = afterStart\<lparr> snakeSegments := [GridCell 10 10, GridCell 11 10] \<rparr>"

section \<open>The page with its timer\<close>

text \<open>
  The component together with its interval: \<open>intervalId\<close> is \<^verbatim>\<open>intervalIdRef.current\<close>,
  \<open>None\<close> for \<^verbatim>\<open>null\<close> and \<open>Some ms\<close> for the id of an interval installed by
  \<^verbatim>\<open>setInterval(step, ms)\<close>. The ref always holds the one live interval: every
  \<^verbatim>\<open>setInterval\<close> of the program is preceded by the \<^verbatim>\<open>clearInterval\<close> of the one before.
\<close>

record page =
  game :: state
  intervalId :: "int option"

text \<open>
  The effect of lines 129--142. Its cleanup (lines 138--141) clears the interval of the
  ref, if any, and sets the ref to \<^verbatim>\<open>null\<close>. Its body clears in the same way while the game
  is not running (lines 130--136) and installs \<^verbatim>\<open>setInterval(step, speedMs)\<close> otherwise
  (line 137).
\<close>

definition timerCleanup :: "int option \<Rightarrow> int option" where
  "timerCleanup h = (case h of Some ms \<Rightarrow> None | None \<Rightarrow> None)"

definition timerEffect :: "state \<Rightarrow> int option \<Rightarrow> int option" where
  "timerEffect s h =
     (if gameStatus s \<noteq> Running
      then (case h of Some ms \<Rightarrow> None | None \<Rightarrow> None)
      else Some (speedMs (score s)))"

text \<open>
  After an event the component renders again, and the effect is run again (cleanup, then
  body) when one of its dependencies \<^verbatim>\<open>[step, speedMs, gameStatus]\<close> has changed:
  \<^verbatim>\<open>step\<close> changes with \<^verbatim>\<open>movementDirection\<close>, \<^verbatim>\<open>foodCell\<close>, \<^verbatim>\<open>score\<close> and
  \<^verbatim>\<open>highScore\<close> (the last two through \<^verbatim>\<open>endGame\<close>), \<^verbatim>\<open>speedMs\<close> with \<^verbatim>\<open>score\<close>.
  (\<^verbatim>\<open>foodCell\<close> is replaced by a new object only by \<^verbatim>\<open>startGame\<close> and by a step that
  eats, where \<^verbatim>\<open>gameStatus\<close> or \<^verbatim>\<open>score\<close> changes as well, so comparing the values
  decides the same.)
\<close>

definition commit :: "state \<Rightarrow> state \<Rightarrow> int option \<Rightarrow> int option" where
  "commit s s' h =
     (if movementDirection s' = movementDirection s \<and> foodCell s' = foodCell s \<and>
         score s' = score s \<and> highScore s' = highScore s \<and> gameStatus s' = gameStatus s
      then h
      else timerEffect s' (timerCleanup h))"

text \<open>
  The mount effect, lines 44--50. \<open>saved\<close> is the value of
  \<^verbatim>\<open>Number(localStorage.getItem(LOCAL_STORAGE_KEY) || 0)\<close>, \<open>None\<close> when it is \<^verbatim>\<open>NaN\<close>.
\<close>

definition mount :: "int option \<Rightarrow> int stream \<Rightarrow> (state \<times> int stream) option" where
  "mount saved rnd =
     (let s0 = (case saved of Some n \<Rightarrow> initialState\<lparr> highScore := n \<rparr> | None \<Rightarrow> initialState);
          snakeSet = set (map cellKey (snakeSegments initialState))
      in case getRandomEmptyCell snakeSet rnd of
           None \<Rightarrow> None
         | Some (food, rnd') \<Rightarrow> Some (s0\<lparr> foodCell := food \<rparr>, rnd'))"

text \<open>
  An event of the page. A timer event is the firing of the installed interval, which
  calls \<^verbatim>\<open>step\<close>; without an interval there is nothing to fire and nothing runs. The other
  events are those of \<open>fire\<close>.
\<close>

fun pageEvent :: "event \<Rightarrow> int stream \<Rightarrow> page \<Rightarrow> (state \<times> int stream) option" where
  "pageEvent Timer rnd p =
     (case intervalId p of None \<Rightarrow> Some (game p, rnd) | Some ms \<Rightarrow> step rnd (game p))"
| "pageEvent (Key k) rnd p = fire (Key k) rnd (game p)"
| "pageEvent (Dpad d) rnd p = fire (Dpad d) rnd (game p)"
| "pageEvent StartButton rnd p = fire StartButton rnd (game p)"
| "pageEvent EndButton rnd p = fire EndButton rnd (game p)"
| "pageEvent ResetButton rnd p = fire ResetButton rnd (game p)"

definition pageFire :: "event \<Rightarrow> int stream \<Rightarrow> page \<Rightarrow> (page \<times> int stream) option" where
  "pageFire e rnd p =
     (case pageEvent e rnd p of
        None \<Rightarrow> None
      | Some (s', rnd') \<Rightarrow>
          Some (\<lparr> game = s', intervalId = commit (game p) s' (intervalId p) \<rparr>, rnd'))"

text \<open>
  The pages reachable from the first render: the mount effect and the first run of the
  timer effect, followed by any events.
\<close>

inductive pageReachable :: "page \<Rightarrow> bool" where
  mounted: "mount saved rnd = Some (s, rnd') \<Longrightarrow>
            pageReachable \<lparr> game = s, intervalId = timerEffect s None \<rparr>"
| fired: "pageReachable p \<Longrightarrow> pageFire e rnd p = Some (p', rnd') \<Longrightarrow> pageReachable p'"

section \<open>The random source\<close>

text \<open>
  What the results on food placement take from \<^verbatim>\<open>Math.random\<close>: every value of
  \<^verbatim>\<open>Math.floor(Math.random() * BOARD_SIZE)\<close> is a coordinate of the board, and every cell
  of the board is drawn again and again.
\<close>

definition randomSource :: "int stream \<Rightarrow> bool" where
  "randomSource rnd \<longleftrightarrow>
     (\<forall>i. 0 \<le> rnd !! i \<and> rnd !! i < BOARD_SIZE) \<and>
     (\<forall>a b k. 0 \<le> a \<and> a < BOARD_SIZE \<and> 0 \<le> b \<and> b < BOARD_SIZE \<longrightarrow>
        (\<exists>n\<ge>k. drawnKey rnd n = (a, b)))"

text \<open>A random source that draws the cells of the board in turn, row after row, for ever.\<close>

definition sweep :: "int stream" where
  "sweep = smap (\<lambda>i. int (if even i then i div 2 div 20 mod 20 else i div 2 mod 20)) nats"

text \<open>\<open>c\<close> is the first cell drawn from \<open>rnd\<close> that is not in \<open>occ\<close>.\<close>

definition firstFreeDraw :: "(int \<times> int) set \<Rightarrow> int stream \<Rightarrow> GridCell \<Rightarrow> bool" where
  "firstFreeDraw occ rnd c \<longleftrightarrow>
     (\<exists>n. drawnKey rnd n = cellKey c \<and> cellKey c \<notin> occ \<and> (\<forall>m<n. drawnKey rnd m \<in> occ))"

text \<open>
  The random source in which two cells change places: wherever \<open>rnd\<close> draws \<open>k1\<close> it
  draws \<open>k2\<close> and the other way round.
\<close>

definition exchangeKey :: "int \<times> int \<Rightarrow> int \<times> int \<Rightarrow> int \<times> int \<Rightarrow> int \<times> int" where
  "exchangeKey k1 k2 k = (if k = k1 then k2 else if k = k2 then k1 else k)"

definition exchangeDraws :: "int \<times> int \<Rightarrow> int \<times> int \<Rightarrow> int stream \<Rightarrow> int stream" where
  "exchangeDraws k1 k2 rnd =
     smap (\<lambda>i. if even i then fst (exchangeKey k1 k2 (drawnKey rnd (i div 2)))
               else snd (exchangeKey k1 k2 (drawnKey rnd (i div 2)))) nats"

text \<open>
  A snake that covers the board but for one cell: it winds through the rows from
  \<open>(0, 0)\<close>, left to right in the even rows and right to left in the odd ones, up to
  \<open>(1, 19)\<close>; the food is on the last cell, \<open>(0, 19)\<close>, just left of the head.
\<close>

definition pathCell :: "nat \<Rightarrow> GridCell" where
  "pathCell i =
     GridCell (int (if even (i div 20) then i mod 20 else 19 - i mod 20)) (int (i div 20))"

definition almostFull :: state where
  "almostFull =
     \<lparr> snakeSegments = map pathCell [0..<399], movementDirection = Left,
       foodCell = pathCell 399, gameStatus = Running, score = 397, highScore = 0,
       pendingDirection = None, storageLog = [] \<rparr>"

text \<open>Example pages: after the mount, after ``Start Game'', after ``End Game''.\<close>

definition mountedPage :: page where
  "mountedPage = \<lparr> game = initialState\<lparr> foodCell := GridCell 0 0 \<rparr>, intervalId = None \<rparr>"

definition startedPage :: page where
  "startedPage =
     \<lparr> game = initialState\<lparr> foodCell := GridCell 0 0, gameStatus := Running \<rparr>,
       intervalId = Some 140 \<rparr>"

definition endedPage :: page where
  "endedPage =
     \<lparr> game = initialState\<lparr> foodCell := GridCell 0 0, gameStatus := Over \<rparr>,
       intervalId = None \<rparr>"

section \<open>Facts about the random placement loop\<close>

lemma getRandomEmptyCell_fst_unoccupied:
  assumes "getRandomEmptyCell occ rnd = Some res"
  shows "cellKey (fst res) \<notin> occ"
  by (rule getRandomEmptyCell.raw_induct [OF _ assms])
     (auto simp: Let_def cellKey_def split: if_splits)

lemma getRandomEmptyCell_unoccupied:
  "getRandomEmptyCell occ rnd = Some (c, rnd') \<Longrightarrow> cellKey c \<notin> occ"
  using getRandomEmptyCell_fst_unoccupied [of occ rnd "(c, rnd')"] by simp

lemma drawnKey_stl: "drawnKey (stl (stl rnd)) n = drawnKey rnd (Suc n)"
  by (simp add: drawnKey_def)

lemma sdrop_two: "sdrop (2 * Suc n) rnd = sdrop (2 * n) (stl (stl rnd))"
  by simp

lemma sdrop_2: "sdrop 2 rnd = stl (stl rnd)"
  by (simp add: numeral_2_eq_2)

lemma getRandomEmptyCell_first_free:
  "drawnKey rnd n \<notin> occ \<Longrightarrow> (\<And>m. m < n \<Longrightarrow> drawnKey rnd m \<in> occ) \<Longrightarrow>
   getRandomEmptyCell occ rnd =
     Some (GridCell (fst (drawnKey rnd n)) (snd (drawnKey rnd n)), sdrop (2 * Suc n) rnd)"
proof (induction n arbitrary: rnd)
  case 0
  then show ?case
    by (subst getRandomEmptyCell.simps) (simp add: drawnKey_def Let_def sdrop_2)
next
  case (Suc n)
  have free: "drawnKey (stl (stl rnd)) n \<notin> occ"
    using Suc.prems(1) by (simp add: drawnKey_stl)
  have taken: "drawnKey (stl (stl rnd)) m \<in> occ" if "m < n" for m
    using Suc.prems(2) [of "Suc m"] that by (simp add: drawnKey_stl)
  have first: "(shd rnd, shd (stl rnd)) \<in> occ"
    using Suc.prems(2) [of 0] by (simp add: drawnKey_def)
  have "getRandomEmptyCell occ rnd = getRandomEmptyCell occ (stl (stl rnd))"
    using first by (subst getRandomEmptyCell.simps) (simp add: Let_def)
  also have "\<dots> = Some (GridCell (fst (drawnKey (stl (stl rnd)) n)) (snd (drawnKey (stl (stl rnd)) n)),
                        sdrop (2 * Suc n) (stl (stl rnd)))"
    using Suc.IH [OF free taken] by simp
  finally show ?case
    unfolding drawnKey_stl sdrop_two [of "Suc n" rnd] .
qed

lemma getRandomEmptyCell_returns:
  assumes "drawnKey rnd n \<notin> occ"
  shows "\<exists>res. getRandomEmptyCell occ rnd = Some res"
proof -
  define k where "k = (LEAST i. drawnKey rnd i \<notin> occ)"
  have "drawnKey rnd k \<notin> occ"
    unfolding k_def using assms by (rule LeastI)
  moreover have "drawnKey rnd m \<in> occ" if "m < k" for m
    using not_less_Least that unfolding k_def by blast
  ultimately show ?thesis
    using getRandomEmptyCell_first_free [of rnd k occ] by blast
qed

lemma getRandomEmptyCell_drawn:
  assumes "getRandomEmptyCell occ rnd = Some res"
  shows "\<exists>n. drawnKey rnd n \<notin> occ"
proof (rule getRandomEmptyCell.raw_induct [OF _ assms])
  fix f occupied rnd res
  assume IH: "\<And>occ rnd y. f occ rnd = Some y \<Longrightarrow> \<exists>n. drawnKey rnd n \<notin> occ"
    and eq: "(let x = shd rnd; y = shd (stl rnd); key = (x, y)
      in if key \<notin> occupied then Some (GridCell x y, stl (stl rnd))
         else f occupied (stl (stl rnd))) = Some res"
  show "\<exists>n. drawnKey rnd n \<notin> occupied"
  proof (cases "(shd rnd, shd (stl rnd)) \<notin> occupied")
    case True
    then have "drawnKey rnd 0 \<notin> occupied" by (simp add: drawnKey_def)
    then show ?thesis ..
  next
    case False
    with eq have "f occupied (stl (stl rnd)) = Some res" by (simp add: Let_def)
    then obtain n where "drawnKey (stl (stl rnd)) n \<notin> occupied" using IH by blast
    then have "drawnKey rnd (Suc n) \<notin> occupied" by (simp add: drawnKey_stl)
    then show ?thesis ..
  qed
qed

lemma getRandomEmptyCell_onBoard:
  assumes "getRandomEmptyCell occ rnd = Some (c, rnd')"
    and range: "\<And>i. 0 \<le> rnd !! i \<and> rnd !! i < BOARD_SIZE"
  shows "onBoard c"
proof -
  from getRandomEmptyCell_drawn [OF assms(1)] obtain n where n: "drawnKey rnd n \<notin> occ"
    by blast
  define k where "k = (LEAST i. drawnKey rnd i \<notin> occ)"
  have "drawnKey rnd k \<notin> occ"
    unfolding k_def using n by (rule LeastI)
  moreover have "drawnKey rnd m \<in> occ" if "m < k" for m
    using not_less_Least that unfolding k_def by blast
  ultimately have "getRandomEmptyCell occ rnd =
      Some (GridCell (fst (drawnKey rnd k)) (snd (drawnKey rnd k)), sdrop (2 * Suc k) rnd)"
    by (rule getRandomEmptyCell_first_free)
  with assms(1) have "c = GridCell (rnd !! (2 * k)) (rnd !! (2 * k + 1))"
    by (simp add: drawnKey_def)
  then show ?thesis
    using range [of "2 * k"] range [of "2 * k + 1"] by (simp add: onBoard_def)
qed

lemma getRandomEmptyCell_full_board:
  assumes full: "\<And>a b. 0 \<le> a \<Longrightarrow> a < BOARD_SIZE \<Longrightarrow> 0 \<le> b \<Longrightarrow> b < BOARD_SIZE \<Longrightarrow> (a, b) \<in> occ"
    and range: "\<And>i. 0 \<le> rnd !! i \<and> rnd !! i < BOARD_SIZE"
  shows "getRandomEmptyCell occ rnd = None"
proof (cases "getRandomEmptyCell occ rnd")
  case None
  then show ?thesis .
next
  case (Some res)
  then obtain n where "drawnKey rnd n \<notin> occ"
    using getRandomEmptyCell_drawn by blast
  moreover have "drawnKey rnd n \<in> occ"
    unfolding drawnKey_def using range [of "2 * n"] range [of "2 * n + 1"] by (intro full) simp_all
  ultimately show ?thesis
    by simp
qed

lemma getRandomEmptyCell_zeros:
  "(0, 0) \<notin> occ \<Longrightarrow> getRandomEmptyCell occ zeros = Some (GridCell 0 0, zeros)"
  by (subst getRandomEmptyCell.simps) (simp add: zeros_def Let_def)

section \<open>Facts about one step\<close>

lemma cellKey_eq_iff: "cellKey a = cellKey b \<longleftrightarrow> a = b"
  by (cases a; cases b) (simp add: cellKey_def)

lemma cellKey_mem: "cellKey c \<in> set (map cellKey cs) \<longleftrightarrow> c \<in> set cs"
  by (auto simp: cellKey_eq_iff)

lemma applyPending_fields:
  "snakeSegments (applyPending s) = snakeSegments s"
  "foodCell (applyPending s) = foodCell s"
  "gameStatus (applyPending s) = gameStatus s"
  "score (applyPending s) = score s"
  "highScore (applyPending s) = highScore s"
  "storageLog (applyPending s) = storageLog s"
  by (simp_all add: applyPending_def split: option.splits)

lemma endGame_fields:
  "snakeSegments (endGame s) = snakeSegments s"
  "foodCell (endGame s) = foodCell s"
  "gameStatus (endGame s) = Over"
  "movementDirection (endGame s) = movementDirection s"
  "pendingDirection (endGame s) = pendingDirection s"
  "score (endGame s) = score s"
  by (simp_all add: endGame_def Let_def)

lemma nextHeadOf_neq: "nextHeadOf d h \<noteq> h"
  by (cases d; cases h) simp_all

lemma step_collision:
  assumes "snakeSegments s \<noteq> []"
    and "nh = nextHeadOf (movementDirection s) (last (snakeSegments s))"
    and "\<not> onBoard nh \<or> nh \<in> set (snakeSegments s)"
  shows "step rnd s = Some (endGame (applyPending s), rnd)"
  using assms by (auto simp: step_def Let_def onBoard_def cellKey_mem)

lemma step_eat:
  assumes "snakeSegments s \<noteq> []"
    and "nh = nextHeadOf (movementDirection s) (last (snakeSegments s))"
    and "onBoard nh" "nh \<notin> set (snakeSegments s)" "nh = foodCell s"
  shows "step rnd s =
           (case getRandomEmptyCell (set (map cellKey (snakeSegments s @ [nh]))) rnd of
              None \<Rightarrow> None
            | Some (food, rnd') \<Rightarrow>
                Some ((applyPending s)\<lparr> score := score s + 1, foodCell := food,
                        snakeSegments := snakeSegments s @ [nh] \<rparr>, rnd'))"
proof -
  have eat: "cell_x nh = cell_x (foodCell s) \<and> cell_y nh = cell_y (foodCell s)"
    using assms(5) by simp
  have wall: "\<not> (cell_x nh < 0 \<or> cell_y nh < 0 \<or> cell_x nh \<ge> BOARD_SIZE \<or> cell_y nh \<ge> BOARD_SIZE)"
    using assms(3) by (auto simp: onBoard_def)
  have self: "cellKey nh \<notin> set (map cellKey (snakeSegments s))"
    using assms(4) by (simp only: cellKey_mem not_False_eq_True)
  show ?thesis
    unfolding step_def Let_def assms(2) [symmetric]
    using assms(1) eat wall self
    by (simp add: applyPending_fields del: set_map map_append split: option.splits)
qed

lemma step_move:
  assumes "snakeSegments s \<noteq> []"
    and "nh = nextHeadOf (movementDirection s) (last (snakeSegments s))"
    and "onBoard nh" "nh \<notin> set (snakeSegments s)" "nh \<noteq> foodCell s"
  shows "step rnd s = Some ((applyPending s)\<lparr> snakeSegments := tl (snakeSegments s) @ [nh] \<rparr>, rnd)"
proof -
  have eat: "\<not> (cell_x nh = cell_x (foodCell s) \<and> cell_y nh = cell_y (foodCell s))"
    using assms(5) by (auto simp: GridCell.expand)
  have wall: "\<not> (cell_x nh < 0 \<or> cell_y nh < 0 \<or> cell_x nh \<ge> BOARD_SIZE \<or> cell_y nh \<ge> BOARD_SIZE)"
    using assms(3) by (auto simp: onBoard_def)
  have self: "cellKey nh \<notin> set (map cellKey (snakeSegments s))"
    using assms(4) by (simp only: cellKey_mem not_False_eq_True)
  show ?thesis
    unfolding step_def Let_def assms(2) [symmetric]
    using assms(1) eat wall self
    by (auto simp del: set_map map_append)
qed

section \<open>The invariant\<close>

lemma startGame_inv: "startGame rnd s = Some (s', rnd') \<Longrightarrow> snakeInv s'"
  by (auto simp: startGame_def Let_def snakeInv_def onBoard_def BOARD_SIZE_def cellKey_def
      split: option.splits dest!: getRandomEmptyCell_unoccupied)

lemma step_inv:
  assumes "snakeInv s" "step rnd s = Some (s', rnd')"
  shows "snakeInv s'"
proof (cases "snakeSegments s = []")
  case True
  with assms show ?thesis by (simp add: step_def)
next
  case ne: False
  define nh where "nh = nextHeadOf (movementDirection s) (last (snakeSegments s))"
  show ?thesis
  proof (cases "\<not> onBoard nh \<or> nh \<in> set (snakeSegments s)")
    case True
    from step_collision [OF ne nh_def True] assms show ?thesis
      by (auto simp: snakeInv_def endGame_fields applyPending_fields)
  next
    case False
    then have ob: "onBoard nh" and fresh: "nh \<notin> set (snakeSegments s)" by auto
    show ?thesis
    proof (cases "nh = foodCell s")
      case True
      from step_eat [OF ne nh_def ob fresh True, of rnd] assms(2) obtain food where
        g: "getRandomEmptyCell (set (map cellKey (snakeSegments s @ [nh]))) rnd = Some (food, rnd')"
        and s': "s' = (applyPending s)\<lparr> score := score s + 1, foodCell := food,
                                         snakeSegments := snakeSegments s @ [nh] \<rparr>"
        by (auto split: option.splits)
      from getRandomEmptyCell_unoccupied [OF g] have "food \<notin> set (snakeSegments s @ [nh])"
        unfolding cellKey_mem .
      with assms(1) ob fresh show ?thesis
        by (simp add: s' snakeInv_def)
    next
      case False
      from step_move [OF ne nh_def ob fresh False, of rnd] assms(2)
      have s': "s' = (applyPending s)\<lparr> snakeSegments := tl (snakeSegments s) @ [nh] \<rparr>"
        by simp
      have sub: "set (tl (snakeSegments s)) \<subseteq> set (snakeSegments s)"
        using ne by (cases "snakeSegments s") auto
      have dt: "distinct (tl (snakeSegments s))"
        using assms(1) by (simp add: snakeInv_def distinct_tl)
      from assms(1) ob fresh sub dt False show ?thesis
        by (auto simp: s' snakeInv_def applyPending_fields)
    qed
  qed
qed

lemma fire_inv:
  assumes "snakeInv s" "fire e rnd s = Some (s', rnd')"
  shows "snakeInv s'"
proof (cases e)
  case Timer
  with assms show ?thesis
    by (auto simp: timerTick_def split: if_splits intro: step_inv)
next
  case (Key k)
  with assms show ?thesis
    by (auto simp: keydown_def Let_def snakeInv_def split: if_splits option.splits
        dest: startGame_inv)
next
  case (Dpad d)
  with assms show ?thesis
    by (auto simp: setDirectionImmediate_def snakeInv_def split: if_splits)
next
  case StartButton
  with assms show ?thesis
    by (auto split: if_splits dest: startGame_inv)
next
  case EndButton
  with assms show ?thesis
    by (auto simp: endGameClick_def snakeInv_def split: if_splits)
next
  case ResetButton
  with assms show ?thesis
    by (auto simp: resetBest_def snakeInv_def)
qed

lemma reachable_inv: "reachable s \<Longrightarrow> snakeInv s"
  by (induction rule: reachable.induct) (auto intro: startGame_inv fire_inv)

lemma reachable_snake_nonempty: "reachable s \<Longrightarrow> snakeSegments s \<noteq> []"
  using reachable_inv [of s] by (auto simp: snakeInv_def)

section \<open>Facts about the random source\<close>

lemma drawnKey_sdrop: "drawnKey (sdrop (2 * j) rnd) n = drawnKey rnd (j + n)"
  by (simp add: drawnKey_def sdrop_snth algebra_simps)

lemma randomSource_sdrop:
  assumes "randomSource rnd"
  shows "randomSource (sdrop (2 * j) rnd)"
  unfolding randomSource_def
proof (intro conjI allI impI)
  fix i
  show "0 \<le> sdrop (2 * j) rnd !! i" and "sdrop (2 * j) rnd !! i < BOARD_SIZE"
    using assms by (simp_all add: randomSource_def sdrop_snth)
next
  fix a b k
  assume "0 \<le> a \<and> a < BOARD_SIZE \<and> 0 \<le> b \<and> b < BOARD_SIZE"
  then obtain n where "n \<ge> j + k" and "drawnKey rnd n = (a, b)"
    using assms unfolding randomSource_def by blast
  then have "n - j \<ge> k" and "drawnKey (sdrop (2 * j) rnd) (n - j) = (a, b)"
    by (simp_all add: drawnKey_sdrop)
  then show "\<exists>n\<ge>k. drawnKey (sdrop (2 * j) rnd) n = (a, b)"
    by blast
qed

lemma div_mod_20: "r < 20 \<Longrightarrow> (20 * q + r) div 20 = q \<and> (20 * q + r) mod 20 = (r::nat)"
  by simp

lemma drawnKey_sweep: "drawnKey sweep n = (int (n div 20 mod 20), int (n mod 20))"
  by (simp add: drawnKey_def sweep_def)

lemma randomSource_sweep: "randomSource sweep"
  unfolding randomSource_def
proof (intro conjI allI impI)
  fix i
  show "0 \<le> sweep !! i" and "sweep !! i < BOARD_SIZE"
    by (simp_all add: sweep_def BOARD_SIZE_def)
next
  fix a b :: int and k :: nat
  assume "0 \<le> a \<and> a < BOARD_SIZE \<and> 0 \<le> b \<and> b < BOARD_SIZE"
  then have a: "nat a < 20" "int (nat a) = a" and b: "nat b < 20" "int (nat b) = b"
    by (auto simp: BOARD_SIZE_def)
  define n where "n = 20 * (20 * k + nat a) + nat b"
  have "n div 20 = 20 * k + nat a" and "n mod 20 = nat b"
    unfolding n_def using div_mod_20 [OF b(1), of "20 * k + nat a"] by blast+
  then have "drawnKey sweep n = (a, b)"
    using a b div_mod_20 [OF a(1), of k] by (simp add: drawnKey_sweep)
  moreover have "n \<ge> k"
    by (simp add: n_def)
  ultimately show "\<exists>n\<ge>k. drawnKey sweep n = (a, b)"
    by blast
qed

lemma getRandomEmptyCell_result:
  assumes "getRandomEmptyCell occ rnd = Some (c, rnd')"
  shows "\<exists>n. drawnKey rnd n = cellKey c \<and> cellKey c \<notin> occ \<and> (\<forall>m<n. drawnKey rnd m \<in> occ) \<and>
             rnd' = sdrop (2 * Suc n) rnd"
proof -
  from getRandomEmptyCell_drawn [OF assms] obtain n0 where n0: "drawnKey rnd n0 \<notin> occ"
    by blast
  define n where "n = (LEAST i. drawnKey rnd i \<notin> occ)"
  have free: "drawnKey rnd n \<notin> occ"
    unfolding n_def using n0 by (rule LeastI)
  have taken: "drawnKey rnd m \<in> occ" if "m < n" for m
    using not_less_Least that unfolding n_def by blast
  from getRandomEmptyCell_first_free [OF free taken] assms
  have "c = GridCell (fst (drawnKey rnd n)) (snd (drawnKey rnd n))"
    and "rnd' = sdrop (2 * Suc n) rnd"
    by simp_all
  then show ?thesis
    using free taken by (auto simp: cellKey_def)
qed

lemma getRandomEmptyCell_fair:
  assumes src: "randomSource rnd"
    and free: "0 \<le> a" "a < BOARD_SIZE" "0 \<le> b" "b < BOARD_SIZE" "(a, b) \<notin> occ"
  shows "\<exists>c rnd'. getRandomEmptyCell occ rnd = Some (c, rnd') \<and> cellKey c \<notin> occ \<and> onBoard c \<and>
                  firstFreeDraw occ rnd c \<and> randomSource rnd'"
proof -
  from src free obtain n where "drawnKey rnd n = (a, b)"
    unfolding randomSource_def by blast
  with free(5) have "drawnKey rnd n \<notin> occ"
    by simp
  from getRandomEmptyCell_returns [OF this] obtain c rnd'
    where g: "getRandomEmptyCell occ rnd = Some (c, rnd')"
    by (cases) auto
  from getRandomEmptyCell_result [OF g] obtain k where
    k: "drawnKey rnd k = cellKey c" "cellKey c \<notin> occ" "\<forall>m<k. drawnKey rnd m \<in> occ"
      "rnd' = sdrop (2 * Suc k) rnd"
    by blast
  have "onBoard c"
    using getRandomEmptyCell_onBoard [OF g] src by (simp add: randomSource_def)
  moreover have "firstFreeDraw occ rnd c"
    unfolding firstFreeDraw_def using k by blast
  moreover have "randomSource rnd'"
    unfolding k(4) using src by (rule randomSource_sdrop)
  ultimately show ?thesis
    using g k(2) by blast
qed

lemma getRandomEmptyCell_sweep:
  "(0, 0) \<notin> occ \<Longrightarrow> getRandomEmptyCell occ sweep = Some (GridCell 0 0, sdrop 2 sweep)"
  using getRandomEmptyCell_first_free [of sweep 0 occ] by (simp add: drawnKey_sweep)

lemma drawnKey_exchangeDraws:
  "drawnKey (exchangeDraws k1 k2 rnd) n = exchangeKey k1 k2 (drawnKey rnd n)"
  unfolding drawnKey_def [of "exchangeDraws k1 k2 rnd"]
  by (simp add: exchangeDraws_def)

lemma exchangeKey_free:
  "k1 \<notin> occ \<Longrightarrow> k2 \<notin> occ \<Longrightarrow> exchangeKey k1 k2 k \<in> occ \<longleftrightarrow> k \<in> occ"
  by (auto simp: exchangeKey_def)

lemma getRandomEmptyCell_exchange:
  assumes "k1 \<notin> occ" "k2 \<notin> occ" and g: "getRandomEmptyCell occ rnd = Some (c, rnd')"
  shows "\<exists>c' rnd''. getRandomEmptyCell occ (exchangeDraws k1 k2 rnd) = Some (c', rnd'') \<and>
                    cellKey c' = exchangeKey k1 k2 (cellKey c)"
proof -
  from getRandomEmptyCell_result [OF g] obtain n where
    n: "drawnKey rnd n = cellKey c" "cellKey c \<notin> occ" "\<forall>m<n. drawnKey rnd m \<in> occ"
    by blast
  let ?rnd = "exchangeDraws k1 k2 rnd"
  have "drawnKey ?rnd n \<notin> occ"
    using n(1,2) assms(1,2) by (simp add: drawnKey_exchangeDraws exchangeKey_free)
  moreover have "drawnKey ?rnd m \<in> occ" if "m < n" for m
    using n(3) that assms(1,2) by (simp add: drawnKey_exchangeDraws exchangeKey_free)
  ultimately have "getRandomEmptyCell occ ?rnd =
      Some (GridCell (fst (drawnKey ?rnd n)) (snd (drawnKey ?rnd n)), sdrop (2 * Suc n) ?rnd)"
    by (rule getRandomEmptyCell_first_free)
  then show ?thesis
    by (simp add: cellKey_def drawnKey_exchangeDraws n(1) [unfolded cellKey_def])
qed

lemma sweep_range: "0 \<le> sweep !! i \<and> sweep !! i < BOARD_SIZE"
  by (simp add: sweep_def BOARD_SIZE_def)

section \<open>Facts about the timer\<close>

lemma timerEffect_eq:
  "timerEffect s h = (if gameStatus s \<noteq> Running then None else Some (speedMs (score s)))"
  by (simp add: timerEffect_def split: option.splits)

lemma page_interval:
  "pageReachable p \<Longrightarrow>
   intervalId p =
     (if gameStatus (game p) \<noteq> Running then None else Some (speedMs (score (game p))))"
proof (induction rule: pageReachable.induct)
  case (mounted saved rnd s rnd')
  show ?case
    by (simp add: timerEffect_eq)
next
  case (fired p e rnd p' rnd')
  from fired.hyps(2) obtain s' where
    p': "p' = \<lparr> game = s', intervalId = commit (game p) s' (intervalId p) \<rparr>"
    by (auto simp: pageFire_def split: option.splits)
  show ?case
  proof (cases "commit (game p) s' (intervalId p) = intervalId p \<and>
                score s' = score (game p) \<and> gameStatus s' = gameStatus (game p)")
    case True
    with fired.IH show ?thesis
      by (simp add: p')
  next
    case False
    then have "commit (game p) s' (intervalId p) = timerEffect s' (timerCleanup (intervalId p))"
      by (auto simp: commit_def split: if_splits)
    then show ?thesis
      by (simp add: p' timerEffect_eq)
  qed
qed

lemma pageEvent_timer:
  "pageReachable p \<Longrightarrow> pageEvent Timer rnd p = timerTick rnd (game p)"
  using page_interval [of p] by (simp add: timerTick_def)

section \<open>Facts about the full board\<close>

lemma pathCell_key:
  "c < 20 \<Longrightarrow> cellKey (pathCell (20 * r + c)) = (int (if even r then c else 19 - c), int r)"
  using div_mod_20 [of c r] by (simp add: pathCell_def cellKey_def)

lemma upt_400: "[0..<400] = [0..<399] @ [399::nat]"
proof -
  have "[0..<Suc 399] = [0..<399] @ [399::nat]"
    by (rule upt_Suc_append) simp
  then show ?thesis
    by (simp del: upt_rec_numeral upt_Suc)
qed

lemma board_covered:
  assumes "0 \<le> a" "a < BOARD_SIZE" "0 \<le> b" "b < BOARD_SIZE"
  shows "(a, b) \<in> set (map cellKey (map pathCell [0..<400]))"
proof -
  define r where "r = nat b"
  define c where "c = (if even r then nat a else 19 - nat a)"
  have r: "r < 20" "int r = b" and a: "nat a < 20" "int (nat a) = a"
    using assms by (auto simp: r_def BOARD_SIZE_def)
  have c: "c < 20" "int (if even r then c else 19 - c) = a"
    using a by (auto simp: c_def)
  have "20 * r + c < 400"
    using r(1) c(1) by simp
  moreover have "cellKey (pathCell (20 * r + c)) = (a, b)"
    using pathCell_key [OF c(1), of r] c(2) r(2) by simp
  ultimately have "(a, b) \<in> (\<lambda>i. cellKey (pathCell i)) ` {0..<400}"
    by (metis (no_types, lifting) atLeastLessThan_iff image_eqI zero_le)
  then show ?thesis
    by (simp add: image_image del: upt_rec_numeral)
qed

lemma pathCell_399: "pathCell 399 = GridCell 0 19" and pathCell_398: "pathCell 398 = GridCell 1 19"
  by (simp_all add: pathCell_def)

lemma pathCell_last_fresh: "pathCell 399 \<notin> set (map pathCell [0..<399])"
proof
  assume "pathCell 399 \<in> set (map pathCell [0..<399])"
  then obtain i where i: "i < 399" "pathCell i = GridCell 0 19"
    by (auto simp: pathCell_399 simp del: upt_rec_numeral)
  then have row: "i div 20 = 19" and col: "19 - i mod 20 = 0"
    by (auto simp: pathCell_def split: if_splits)
  have "i mod 20 < 20" by simp
  with col have "i mod 20 = 19" by linarith
  with row have "i = 399"
    using div_mult_mod_eq [of i 20] by simp
  with i(1) show False by simp
qed

lemma almostFull_facts:
  "snakeSegments almostFull \<noteq> []"
  "last (snakeSegments almostFull) = GridCell 1 19"
  "foodCell almostFull = GridCell 0 19"
  "GridCell 0 19 \<notin> set (snakeSegments almostFull)"
  "snakeSegments almostFull @ [GridCell 0 19] = map pathCell [0..<400]"
proof -
  have ne: "[0..<399::nat] \<noteq> []"
    by (simp del: upt_rec_numeral)
  show "snakeSegments almostFull \<noteq> []"
    using ne by (simp add: almostFull_def del: upt_rec_numeral)
  have "last (map pathCell [0..<399]) = pathCell (last [0..<399])"
    using ne by (rule last_map)
  also have "last [0..<399] = (398::nat)"
    by (simp del: upt_rec_numeral)
  finally show "last (snakeSegments almostFull) = GridCell 1 19"
    by (simp add: almostFull_def pathCell_398 del: upt_rec_numeral)
  show "foodCell almostFull = GridCell 0 19"
    by (simp add: almostFull_def pathCell_399)
  show "GridCell 0 19 \<notin> set (snakeSegments almostFull)"
    using pathCell_last_fresh by (simp add: almostFull_def pathCell_399 del: upt_rec_numeral)
  show "snakeSegments almostFull @ [GridCell 0 19] = map pathCell [0..<400]"
    unfolding upt_400 by (simp add: almostFull_def pathCell_399 del: upt_rec_numeral)
qed

lemma step_almostFull:
  assumes "\<And>i. 0 \<le> rnd !! i \<and> rnd !! i < BOARD_SIZE"
  shows "step rnd almostFull = None"
proof -
  have nh: "GridCell 0 19 = nextHeadOf (movementDirection almostFull) (last (snakeSegments almostFull))"
    unfolding almostFull_facts(2) by (simp add: almostFull_def)
  have ob: "onBoard (GridCell 0 19)"
    by (simp add: onBoard_def BOARD_SIZE_def)
  have eat: "GridCell 0 19 = foodCell almostFull"
    by (simp add: almostFull_facts(3))
  have "getRandomEmptyCell (set (map cellKey (snakeSegments almostFull @ [GridCell 0 19]))) rnd = None"
    unfolding almostFull_facts(5)
    by (rule getRandomEmptyCell_full_board) (use assms board_covered in blast)+
  then show ?thesis
    unfolding step_eat [OF almostFull_facts(1) nh ob almostFull_facts(4) eat] by simp
qed

lemma pathCell_inj:
  assumes eq: "pathCell i = pathCell j"
  shows "i = j"
proof -
  from eq have row: "i div 20 = j div 20"
    by (simp add: pathCell_def)
  have bound: "i mod 20 < 20" "j mod 20 < 20" by simp_all
  from eq row have "(if even (j div 20) then i mod 20 else 19 - i mod 20)
      = (if even (j div 20) then j mod 20 else 19 - j mod 20)"
    by (simp add: pathCell_def)
  with bound have col: "i mod 20 = j mod 20"
    by (simp split: if_splits)
  have "i = 20 * (i div 20) + i mod 20" "j = 20 * (j div 20) + j mod 20"
    by simp_all
  with row col show "i = j"
    by metis
qed

lemma pathCell_onBoard: "i < 400 \<Longrightarrow> onBoard (pathCell i)"
  by (auto simp: pathCell_def onBoard_def BOARD_SIZE_def)

lemma snakeInv_almostFull: "snakeInv almostFull"
proof -
  have "inj_on pathCell (set [0..<399])"
    by (rule inj_onI) (rule pathCell_inj)
  then have d: "distinct (map pathCell [0..<399])"
    by (simp add: distinct_map del: upt_rec_numeral set_upt)
  have b: "\<forall>c \<in> set (map pathCell [0..<399]). onBoard c"
  proof
    fix c assume "c \<in> set (map pathCell [0..<399])"
    then obtain i where "i < 399" "c = pathCell i"
      by (auto simp del: upt_rec_numeral)
    then show "onBoard c"
      using pathCell_onBoard [of i] by simp
  qed
  have l: "2 \<le> length (map pathCell [0..<399])"
    by (simp del: upt_rec_numeral)
  show ?thesis
    unfolding snakeInv_def almostFull_def
    using d b l pathCell_last_fresh by (simp del: upt_rec_numeral set_map set_upt)
qed

section \<open>Facts about termination\<close>



section \<open>The tick: \<^verbatim>\<open>step\<close>\<close>

text \<open>
  C1. The claim: on a tick (a run of \<^verbatim>\<open>step\<close>) in the running state with a buffered
  pending direction, that direction is committed at the start of the tick and
  \<^verbatim>\<open>nextHead\<close> is the head moved one cell in the newly committed direction. The code
  commits the direction (line 79) but computes \<^verbatim>\<open>nextHead\<close> from the
  \<^verbatim>\<open>movementDirection\<close> captured by the callback, which is the direction active before
  the tick. Evaluated on the start position with \<open>Up\<close> pending: the snake moves right, to
  \<open>(11, 10)\<close>, not up to \<open>(10, 9)\<close>, and only the following tick moves up.
\<close>

theorem step_pending_moves_in_previous_direction:
  "gameStatus turnUpPending = Running \<and>
   movementDirection turnUpPending = Right \<and>
   pendingDirection turnUpPending = Some Up \<and>
   snakeSegments turnUpPending = [GridCell 9 10, GridCell 10 10] \<and>
   step zeros turnUpPending = Some (turnUpCommitted, zeros) \<and>
   movementDirection turnUpCommitted = Up \<and>
   snakeSegments turnUpCommitted = [GridCell 10 10, GridCell 11 10] \<and>
   nextHeadOf Up (last (snakeSegments turnUpPending)) = GridCell 10 9 \<and>
   step zeros turnUpCommitted =
     Some (turnUpCommitted\<lparr> snakeSegments := [GridCell 11 10, GridCell 11 9] \<rparr>, zeros)"
  by (simp add: step_def applyPending_def turnUpPending_def turnUpCommitted_def runningStart_def
      Let_def BOARD_SIZE_def cellKey_def)

text \<open>
  C4. In a running state with a snake, a run of \<^verbatim>\<open>step\<close> ends the game and leaves the snake unchanged
  exactly when \<^verbatim>\<open>nextHead\<close> lies outside the board or is one of the cells of the snake
  before the move, the tail cell included; \<^verbatim>\<open>nextHead\<close> is the value that \<^verbatim>\<open>step\<close>
  computes, the head moved in the \<^verbatim>\<open>movementDirection\<close> of the state. On a collision
  \<^verbatim>\<open>step\<close> always returns.
\<close>

theorem step_collision_iff:
  assumes "gameStatus s = Running" and "snakeSegments s \<noteq> []"
    and "nh = nextHeadOf (movementDirection s) (last (snakeSegments s))"
  shows
    "(\<not> (0 \<le> cell_x nh \<and> cell_x nh < BOARD_SIZE \<and> 0 \<le> cell_y nh \<and> cell_y nh < BOARD_SIZE) \<or>
      nh \<in> set (snakeSegments s) \<longrightarrow>
        (\<exists>s'. step rnd s = Some (s', rnd) \<and> gameStatus s' = Over \<and>
              snakeSegments s' = snakeSegments s)) \<and>
     (\<forall>s' rnd'. step rnd s = Some (s', rnd') \<longrightarrow>
        ((gameStatus s' = Over \<and> snakeSegments s' = snakeSegments s) \<longleftrightarrow>
         (\<not> (0 \<le> cell_x nh \<and> cell_x nh < BOARD_SIZE \<and> 0 \<le> cell_y nh \<and> cell_y nh < BOARD_SIZE) \<or>
          nh \<in> set (snakeSegments s)))) \<and>
     (nh = hd (snakeSegments s) \<longrightarrow>
        (\<exists>s'. step rnd s = Some (s', rnd) \<and> gameStatus s' = Over \<and>
              snakeSegments s' = snakeSegments s))"
proof -
  let ?hit = "\<not> (0 \<le> cell_x nh \<and> cell_x nh < BOARD_SIZE \<and> 0 \<le> cell_y nh \<and> cell_y nh < BOARD_SIZE) \<or>
      nh \<in> set (snakeSegments s)"
  have hit: "\<exists>s'. step rnd s = Some (s', rnd) \<and> gameStatus s' = Over \<and>
              snakeSegments s' = snakeSegments s" if "?hit"
  proof -
    from that have "\<not> onBoard nh \<or> nh \<in> set (snakeSegments s)"
      by (simp add: onBoard_def)
    from step_collision [OF assms(2,3) this, of rnd] show ?thesis
      by (simp add: endGame_fields applyPending_fields)
  qed
  have miss: "gameStatus s' = Running" if "\<not> ?hit" "step rnd s = Some (s', rnd')" for s' rnd'
  proof -
    from that(1) have ob: "onBoard nh" and fresh: "nh \<notin> set (snakeSegments s)"
      by (auto simp: onBoard_def)
    show ?thesis
    proof (cases "nh = foodCell s")
      case True
      from step_eat [OF assms(2,3) ob fresh True, of rnd] that(2) show ?thesis
        by (auto simp: applyPending_fields assms(1) split: option.splits)
    next
      case False
      from step_move [OF assms(2,3) ob fresh False, of rnd] that(2) show ?thesis
        by (auto simp: applyPending_fields assms(1))
    qed
  qed
  have iff: "(gameStatus s' = Over \<and> snakeSegments s' = snakeSegments s) \<longleftrightarrow> ?hit"
    if "step rnd s = Some (s', rnd')" for s' rnd'
  proof (cases "?hit")
    case True
    from hit [OF True] that True show ?thesis by auto
  next
    case False
    from miss [OF False that] False show ?thesis by auto
  qed
  have tail: "nh = hd (snakeSegments s) \<Longrightarrow> ?hit"
    using assms(2) by simp
  show ?thesis
    using hit iff tail by blast
qed

theorem step_collision_iff_witness:
  "\<exists>s'. step zeros tailChase = Some (s', zeros) \<and> gameStatus s' = Over \<and>
        snakeSegments s' = [GridCell 5 5, GridCell 6 5, GridCell 6 6, GridCell 5 6]"
proof -
  have a: "gameStatus tailChase = Running" and b: "snakeSegments tailChase \<noteq> []"
    and c: "GridCell 5 5 = nextHeadOf (movementDirection tailChase) (last (snakeSegments tailChase))"
    and d: "GridCell 5 5 = hd (snakeSegments tailChase)"
    by (simp_all add: tailChase_def)
  have e: "snakeSegments tailChase = [GridCell 5 5, GridCell 6 5, GridCell 6 6, GridCell 5 6]"
    by (simp add: tailChase_def)
  from step_collision_iff [OF a b c, of zeros]
  have "GridCell 5 5 = hd (snakeSegments tailChase) \<longrightarrow>
        (\<exists>s'. step zeros tailChase = Some (s', zeros) \<and> gameStatus s' = Over \<and>
              snakeSegments s' = snakeSegments tailChase)"
    by (rule conjunct2 [OF conjunct2])
  from this d show ?thesis
    unfolding e by (rule mp)
qed


text \<open>
  C5. The claim: on every non-colliding tick whose \<^verbatim>\<open>nextHead\<close> is the food cell, the
  snake grows, the score increases and the food is re-placed on an empty cell. When the
  snake covers the board but for the food cell and eats it, no cell is left for the food:
  \<^verbatim>\<open>getRandomEmptyCell\<close> never returns, whatever coordinates of the board the random
  source draws, and the run of \<^verbatim>\<open>step\<close> produces no state.
\<close>

theorem step_last_free_cell_no_return:
  "gameStatus almostFull = Running \<and> snakeInv almostFull \<and>
   length (snakeSegments almostFull) = 399 \<and>
   nextHeadOf (movementDirection almostFull) (last (snakeSegments almostFull)) =
     foodCell almostFull \<and>
   onBoard (foodCell almostFull) \<and>
   randomSource sweep \<and> step sweep almostFull = None \<and>
   \<not> (\<exists>rnd. (\<forall>i. 0 \<le> rnd !! i \<and> rnd !! i < BOARD_SIZE) \<and> step rnd almostFull \<noteq> None)"
proof (intro conjI)
  show "gameStatus almostFull = Running"
    by (simp add: almostFull_def del: upt_rec_numeral)
  show "snakeInv almostFull"
    by (rule snakeInv_almostFull)
  show "length (snakeSegments almostFull) = 399"
    by (simp add: almostFull_def del: upt_rec_numeral)
  show "nextHeadOf (movementDirection almostFull) (last (snakeSegments almostFull)) =
     foodCell almostFull"
    unfolding almostFull_facts(2,3) by (simp add: almostFull_def del: upt_rec_numeral)
  show "onBoard (foodCell almostFull)"
    unfolding almostFull_facts(3) by (simp add: onBoard_def BOARD_SIZE_def)
  show "randomSource sweep"
    by (rule randomSource_sweep)
  show "step sweep almostFull = None"
    by (rule step_almostFull) (rule sweep_range)
  show "\<not> (\<exists>rnd. (\<forall>i. 0 \<le> rnd !! i \<and> rnd !! i < BOARD_SIZE) \<and> step rnd almostFull \<noteq> None)"
  proof
    assume "\<exists>rnd. (\<forall>i. 0 \<le> rnd !! i \<and> rnd !! i < BOARD_SIZE) \<and> step rnd almostFull \<noteq> None"
    then obtain rnd where r: "\<And>i. 0 \<le> rnd !! i \<and> rnd !! i < BOARD_SIZE"
      and s: "step rnd almostFull \<noteq> None"
      by blast
    from step_almostFull [of rnd, OF r] s show False
      by simp
  qed
qed

text \<open>
  C5, amended. On a run of \<^verbatim>\<open>step\<close> in a running state that does not collide: if
  \<^verbatim>\<open>nextHead\<close> is the food cell and a cell of the board stays free of the new, longer
  snake, the run returns, the snake gains \<^verbatim>\<open>nextHead\<close> as its new head and nothing else,
  the score grows by one, and the food moves to a cell of the board outside the new snake:
  the first such cell that the random source draws. Otherwise, if \<^verbatim>\<open>nextHead\<close> is not
  the food cell, \<^verbatim>\<open>nextHead\<close> is appended and the oldest cell removed, and length, score
  and food stay as they are. In particular the start position heading right, with nothing
  pending and no food at \<open>(11, 10)\<close>, becomes \<open>[(10, 10), (11, 10)]\<close> and the game is
  still running. The placement prefers no free cell to another: on the random source in
  which two free cells have changed places, it returns the one where it returned the
  other.
\<close>

theorem step_growth:
  "(gameStatus s = Running \<and> snakeSegments s \<noteq> [] \<and>
    nh = nextHeadOf (movementDirection s) (last (snakeSegments s)) \<and>
    0 \<le> cell_x nh \<and> cell_x nh < BOARD_SIZE \<and> 0 \<le> cell_y nh \<and> cell_y nh < BOARD_SIZE \<and>
    nh \<notin> set (snakeSegments s) \<longrightarrow>
      (nh = foodCell s \<and> randomSource rnd \<and>
       0 \<le> a \<and> a < BOARD_SIZE \<and> 0 \<le> b \<and> b < BOARD_SIZE \<and>
       GridCell a b \<notin> set (snakeSegments s @ [nh]) \<longrightarrow>
         (\<exists>s' rnd'. step rnd s = Some (s', rnd') \<and>
               snakeSegments s' = snakeSegments s @ [nh] \<and>
               length (snakeSegments s') = length (snakeSegments s) + 1 \<and>
               score s' = score s + 1 \<and>
               gameStatus s' = Running \<and>
               onBoard (foodCell s') \<and> foodCell s' \<notin> set (snakeSegments s') \<and>
               firstFreeDraw (set (map cellKey (snakeSegments s'))) rnd (foodCell s') \<and>
               randomSource rnd')) \<and>
      (nh \<noteq> foodCell s \<longrightarrow>
         (\<exists>s'. step rnd s = Some (s', rnd) \<and>
               snakeSegments s' = tl (snakeSegments s) @ [nh] \<and>
               length (snakeSegments s') = length (snakeSegments s) \<and>
               score s' = score s \<and>
               foodCell s' = foodCell s \<and>
               gameStatus s' = Running))) \<and>
   (gameStatus s = Running \<and> snakeSegments s = [GridCell 9 10, GridCell 10 10] \<and>
    movementDirection s = Right \<and> pendingDirection s = None \<and>
    foodCell s \<noteq> GridCell 11 10 \<longrightarrow>
      step rnd s = Some (s\<lparr> snakeSegments := [GridCell 10 10, GridCell 11 10] \<rparr>, rnd)) \<and>
   (k1 \<notin> occ \<and> k2 \<notin> occ \<and> getRandomEmptyCell occ rnd = Some (c, rnd1) \<longrightarrow>
      (\<exists>c' rnd2. getRandomEmptyCell occ (exchangeDraws k1 k2 rnd) = Some (c', rnd2) \<and>
                 cellKey c' = exchangeKey k1 k2 (cellKey c)))"
proof (intro conjI impI; (elim conjE)?)
  assume run: "gameStatus s = Running" and ne: "snakeSegments s \<noteq> []"
    and nh: "nh = nextHeadOf (movementDirection s) (last (snakeSegments s))"
    and b: "0 \<le> cell_x nh" "cell_x nh < BOARD_SIZE" "0 \<le> cell_y nh" "cell_y nh < BOARD_SIZE"
    and fresh: "nh \<notin> set (snakeSegments s)"
  have ob: "onBoard nh"
    using b by (simp add: onBoard_def)
  {
    assume eat: "nh = foodCell s" and src: "randomSource rnd"
      and free: "0 \<le> a" "a < BOARD_SIZE" "0 \<le> b" "b < BOARD_SIZE"
        "GridCell a b \<notin> set (snakeSegments s @ [nh])"
    let ?occ = "set (map cellKey (snakeSegments s @ [nh]))"
    have "cellKey (GridCell a b) \<notin> ?occ"
      using free(5) unfolding cellKey_mem .
    then have "(a, b) \<notin> ?occ"
      by (simp add: cellKey_def del: set_map map_append)
    from getRandomEmptyCell_fair [OF src free(1-4) this] obtain food rnd' where
      g: "getRandomEmptyCell ?occ rnd = Some (food, rnd')"
      and f: "cellKey food \<notin> ?occ" "onBoard food" "firstFreeDraw ?occ rnd food"
        "randomSource rnd'"
      by blast
    from f(1) have out: "food \<notin> set (snakeSegments s @ [nh])"
      unfolding cellKey_mem .
    have "step rnd s =
          Some ((applyPending s)\<lparr> score := score s + 1, foodCell := food,
                  snakeSegments := snakeSegments s @ [nh] \<rparr>, rnd')"
      unfolding step_eat [OF ne nh ob fresh eat] g by simp
    then show "\<exists>s' rnd'. step rnd s = Some (s', rnd') \<and>
               snakeSegments s' = snakeSegments s @ [nh] \<and>
               length (snakeSegments s') = length (snakeSegments s) + 1 \<and>
               score s' = score s + 1 \<and>
               gameStatus s' = Running \<and>
               onBoard (foodCell s') \<and> foodCell s' \<notin> set (snakeSegments s') \<and>
               firstFreeDraw (set (map cellKey (snakeSegments s'))) rnd (foodCell s') \<and>
               randomSource rnd'"
      using run out f(2,3,4) by (simp add: applyPending_fields del: set_map map_append)
  }
  {
    assume noeat: "nh \<noteq> foodCell s"
    have "length (tl (snakeSegments s) @ [nh]) = length (snakeSegments s)"
      using ne by (cases "snakeSegments s") simp_all
    then show "\<exists>s'. step rnd s = Some (s', rnd) \<and>
               snakeSegments s' = tl (snakeSegments s) @ [nh] \<and>
               length (snakeSegments s') = length (snakeSegments s) \<and>
               score s' = score s \<and>
               foodCell s' = foodCell s \<and>
               gameStatus s' = Running"
      using run by (simp add: step_move [OF ne nh ob fresh noeat] applyPending_fields)
  }
next
  assume run: "gameStatus s = Running"
    and snake: "snakeSegments s = [GridCell 9 10, GridCell 10 10]"
    and dir: "movementDirection s = Right" and pend: "pendingDirection s = None"
    and food: "foodCell s \<noteq> GridCell 11 10"
  have ne: "snakeSegments s \<noteq> []" and nh: "GridCell 11 10 = nextHeadOf (movementDirection s) (last (snakeSegments s))"
    and ob: "onBoard (GridCell 11 10)" and fresh: "GridCell 11 10 \<notin> set (snakeSegments s)"
    by (simp_all add: snake dir onBoard_def BOARD_SIZE_def)
  have noeat: "GridCell 11 10 \<noteq> foodCell s"
    using food by simp
  have "applyPending s = s"
    by (simp add: applyPending_def pend)
  then show "step rnd s = Some (s\<lparr> snakeSegments := [GridCell 10 10, GridCell 11 10] \<rparr>, rnd)"
    using run by (simp add: step_move [OF ne nh ob fresh noeat] snake)
next
  assume "k1 \<notin> occ" "k2 \<notin> occ" "getRandomEmptyCell occ rnd = Some (c, rnd1)"
  then show "\<exists>c' rnd2. getRandomEmptyCell occ (exchangeDraws k1 k2 rnd) = Some (c', rnd2) \<and>
                 cellKey c' = exchangeKey k1 k2 (cellKey c)"
    by (rule getRandomEmptyCell_exchange)
qed

theorem step_growth_witness:
  "(\<exists>s' rnd'. step sweep aboutToEat = Some (s', rnd') \<and>
         snakeSegments s' = [GridCell 9 10, GridCell 10 10, GridCell 11 10] \<and>
         score s' = 1 \<and> gameStatus s' = Running \<and> onBoard (foodCell s') \<and>
         foodCell s' \<notin> set (snakeSegments s') \<and> randomSource rnd') \<and>
   step sweep runningStart =
     Some (runningStart\<lparr> snakeSegments := [GridCell 10 10, GridCell 11 10] \<rparr>, sweep) \<and>
   (\<exists>c' rnd2. getRandomEmptyCell {(9, 10), (10, 10)} (exchangeDraws (0, 0) (5, 5) sweep)
                = Some (c', rnd2) \<and> cellKey c' = (5, 5))"
proof (intro conjI)
  have hyps: "gameStatus aboutToEat = Running \<and> snakeSegments aboutToEat \<noteq> [] \<and>
    GridCell 11 10 = nextHeadOf (movementDirection aboutToEat) (last (snakeSegments aboutToEat)) \<and>
    0 \<le> cell_x (GridCell 11 10) \<and> cell_x (GridCell 11 10) < BOARD_SIZE \<and>
    0 \<le> cell_y (GridCell 11 10) \<and> cell_y (GridCell 11 10) < BOARD_SIZE \<and>
    GridCell 11 10 \<notin> set (snakeSegments aboutToEat)"
    by (simp add: aboutToEat_def runningStart_def BOARD_SIZE_def)
  have eat: "GridCell 11 10 = foodCell aboutToEat \<and> randomSource sweep \<and>
       (0::int) \<le> 0 \<and> 0 < BOARD_SIZE \<and> (0::int) \<le> 0 \<and> 0 < BOARD_SIZE \<and>
       GridCell 0 0 \<notin> set (snakeSegments aboutToEat @ [GridCell 11 10])"
    by (simp add: aboutToEat_def runningStart_def BOARD_SIZE_def randomSource_sweep)
  from step_growth [of aboutToEat "GridCell 11 10" sweep 0 0] hyps eat
  have "\<exists>s' rnd'. step sweep aboutToEat = Some (s', rnd') \<and>
               snakeSegments s' = snakeSegments aboutToEat @ [GridCell 11 10] \<and>
               length (snakeSegments s') = length (snakeSegments aboutToEat) + 1 \<and>
               score s' = score aboutToEat + 1 \<and>
               gameStatus s' = Running \<and>
               onBoard (foodCell s') \<and> foodCell s' \<notin> set (snakeSegments s') \<and>
               firstFreeDraw (set (map cellKey (snakeSegments s'))) sweep (foodCell s') \<and>
               randomSource rnd'"
    by blast
  then show "\<exists>s' rnd'. step sweep aboutToEat = Some (s', rnd') \<and>
         snakeSegments s' = [GridCell 9 10, GridCell 10 10, GridCell 11 10] \<and>
         score s' = 1 \<and> gameStatus s' = Running \<and> onBoard (foodCell s') \<and>
         foodCell s' \<notin> set (snakeSegments s') \<and> randomSource rnd'"
    by (auto simp: aboutToEat_def runningStart_def)
next
  have "gameStatus runningStart = Running \<and> snakeSegments runningStart = [GridCell 9 10, GridCell 10 10] \<and>
    movementDirection runningStart = Right \<and> pendingDirection runningStart = None \<and>
    foodCell runningStart \<noteq> GridCell 11 10"
    by (simp add: runningStart_def)
  with step_growth [of runningStart _ sweep]
  show "step sweep runningStart =
     Some (runningStart\<lparr> snakeSegments := [GridCell 10 10, GridCell 11 10] \<rparr>, sweep)"
    by blast
next
  have g: "getRandomEmptyCell {(9, 10), (10, 10)} sweep = Some (GridCell 0 0, sdrop 2 sweep)"
    by (rule getRandomEmptyCell_sweep) simp
  have "(0, 0) \<notin> {(9, 10), (10, 10) :: int \<times> int} \<and> (5, 5) \<notin> {(9, 10), (10, 10) :: int \<times> int}"
    by simp
  with step_growth [of _ _ sweep _ _ "(0, 0)" "{(9, 10), (10, 10)}" "(5, 5)" "GridCell 0 0" "sdrop 2 sweep"] g
  have "\<exists>c' rnd2. getRandomEmptyCell {(9, 10), (10, 10)} (exchangeDraws (0, 0) (5, 5) sweep)
                = Some (c', rnd2) \<and> cellKey c' = exchangeKey (0, 0) (5, 5) (cellKey (GridCell 0 0))"
    by blast
  then show "\<exists>c' rnd2. getRandomEmptyCell {(9, 10), (10, 10)} (exchangeDraws (0, 0) (5, 5) sweep)
                = Some (c', rnd2) \<and> cellKey c' = (5, 5)"
    by (simp add: exchangeKey_def cellKey_def)
qed

text \<open>
  C6. In every state reachable from a start of the game by any events (ticks, direction
  inputs by key or button, the three buttons), every cell of the snake lies on the board of
  side \<open>20\<close>, the cells of the snake are pairwise distinct, and the food is on no cell of
  the snake; the last holds in every reachable state, so after a start and after a growing
  tick.
\<close>

theorem reachable_snake_invariant:
  "reachable s \<Longrightarrow>
     BOARD_SIZE = 20 \<and>
     (\<forall>c \<in> set (snakeSegments s).
        0 \<le> cell_x c \<and> cell_x c < BOARD_SIZE \<and> 0 \<le> cell_y c \<and> cell_y c < BOARD_SIZE) \<and>
     distinct (snakeSegments s) \<and>
     foodCell s \<notin> set (snakeSegments s)"
  using reachable_inv [of s] by (simp add: snakeInv_def onBoard_def BOARD_SIZE_def)

theorem reachable_snake_invariant_witness:
  "reachable afterFirstTick \<and>
   snakeSegments afterFirstTick = [GridCell 10 10, GridCell 11 10] \<and>
   list_all (\<lambda>c. 0 \<le> cell_x c \<and> cell_x c < BOARD_SIZE \<and> 0 \<le> cell_y c \<and> cell_y c < BOARD_SIZE)
     (snakeSegments afterFirstTick) \<and>
   distinct (snakeSegments afterFirstTick) \<and>
   foodCell afterFirstTick \<notin> set (snakeSegments afterFirstTick)"
proof -
  have g: "getRandomEmptyCell (set (map cellKey [GridCell 9 10, GridCell 10 10])) zeros
             = Some (GridCell 0 0, zeros)"
    by (rule getRandomEmptyCell_zeros) (simp add: cellKey_def)
  have "startGame zeros initialState = Some (afterStart, zeros)"
    by (simp add: startGame_def Let_def BOARD_SIZE_def g afterStart_def initialState_def
        del: set_map list.map)
  then have r1: "reachable afterStart"
    by (rule reachable.start)
  have "fire Timer zeros afterStart = Some (afterFirstTick, zeros)"
    by (simp add: timerTick_def step_def applyPending_def afterStart_def afterFirstTick_def
        initialState_def Let_def BOARD_SIZE_def cellKey_def)
  with r1 have r2: "reachable afterFirstTick"
    by (rule reachable.event)
  have "snakeSegments afterFirstTick = [GridCell 10 10, GridCell 11 10]"
    by (simp add: afterFirstTick_def)
  with reachable_snake_invariant [OF r2] r2 show ?thesis
    unfolding list_all_iff by blast
qed


section \<open>The timer\<close>

text \<open>
  C2. In every state whose status is not running, a tick leaves the whole state unchanged.
  The only caller of \<^verbatim>\<open>step\<close> is the interval of lines 129--142, so a tick is the firing
  of that interval. In every page reachable from the first render whose status is not
  running, no interval is installed, and a timer event leaves the whole page (snake,
  direction, food, score, status, high score, pending direction, storage and the timer
  itself) and the random source unchanged.
\<close>

theorem timer_not_running_unchanged:
  "pageReachable p \<Longrightarrow> gameStatus (game p) \<noteq> Running \<Longrightarrow>
     intervalId p = None \<and> pageFire Timer rnd p = Some (p, rnd)"
proof -
  assume r: "pageReachable p" and nr: "gameStatus (game p) \<noteq> Running"
  from page_interval [OF r] nr have h: "intervalId p = None"
    by simp
  then have "pageFire Timer rnd p = Some (\<lparr> game = game p, intervalId = intervalId p \<rparr>, rnd)"
    by (simp add: pageFire_def commit_def)
  with h show ?thesis
    by simp
qed

theorem timer_not_running_unchanged_witness:
  "pageReachable endedPage \<and> gameStatus (game endedPage) = Over \<and>
   intervalId endedPage = None \<and> pageFire Timer sweep endedPage = Some (endedPage, sweep)"
proof -
  have g: "getRandomEmptyCell (set (map cellKey [GridCell 9 10, GridCell 10 10])) sweep
             = Some (GridCell 0 0, sdrop 2 sweep)"
    by (rule getRandomEmptyCell_sweep) (simp add: cellKey_def)
  have "mount (Some 0) sweep = Some (game mountedPage, sdrop 2 sweep)"
    by (simp add: mount_def Let_def initialState_def BOARD_SIZE_def g mountedPage_def
        del: set_map list.map)
  then have "pageReachable \<lparr> game = game mountedPage, intervalId = timerEffect (game mountedPage) None \<rparr>"
    by (rule pageReachable.mounted)
  then have r0: "pageReachable mountedPage"
    by (simp add: timerEffect_def mountedPage_def initialState_def)
  have "pageFire StartButton sweep mountedPage = Some (startedPage, sdrop 2 sweep)"
    by (simp add: pageFire_def startGame_def Let_def initialState_def BOARD_SIZE_def g
        mountedPage_def startedPage_def commit_def timerEffect_def timerCleanup_def speedMs_def
        del: set_map list.map)
  with r0 have r1: "pageReachable startedPage"
    by (rule pageReachable.fired)
  have "pageFire EndButton sweep startedPage = Some (endedPage, sweep)"
    by (simp add: pageFire_def endGameClick_def initialState_def startedPage_def endedPage_def
        commit_def timerEffect_def timerCleanup_def)
  with r1 have r2: "pageReachable endedPage"
    by (rule pageReachable.fired)
  have nr: "gameStatus (game endedPage) \<noteq> Running" and ov: "gameStatus (game endedPage) = Over"
    by (simp_all add: endedPage_def)
  from timer_not_running_unchanged [OF r2 nr, of sweep] r2 ov show ?thesis
    by simp
qed

section \<open>Ending the game\<close>

text \<open>
  C9. \<^verbatim>\<open>endGame\<close> sets the status to over. If the score is strictly greater than the high
  score, the high score becomes the score and one \<^verbatim>\<open>setItem\<close> of the score is issued to
  the store; otherwise the high score is unchanged and nothing is written. So a write
  happens exactly when the score exceeds the high score. Score 12 against high score 10
  stores 12; score 5 against high score 10 changes nothing.
\<close>

theorem endGame_high_score:
  "gameStatus (endGame s) = Over \<and>
   (score s > highScore s \<longrightarrow>
      highScore (endGame s) = score s \<and>
      storageLog (endGame s) = storageLog s @ [SetItem LOCAL_STORAGE_KEY (score s)]) \<and>
   (score s \<le> highScore s \<longrightarrow>
      highScore (endGame s) = highScore s \<and> storageLog (endGame s) = storageLog s) \<and>
   (storageLog (endGame s) \<noteq> storageLog s \<longleftrightarrow> score s > highScore s) \<and>
   (score s = 12 \<and> highScore s = 10 \<longrightarrow>
      highScore (endGame s) = 12 \<and>
      storageLog (endGame s) = storageLog s @ [SetItem LOCAL_STORAGE_KEY 12]) \<and>
   (score s = 5 \<and> highScore s = 10 \<longrightarrow>
      highScore (endGame s) = 10 \<and> storageLog (endGame s) = storageLog s)"
  by (simp add: endGame_def Let_def)

theorem endGame_high_score_witness:
  "highScore (endGame forfeitState) = 12 \<and>
   storageLog (endGame forfeitState) = [SetItem ''snakeHighScore'' 12] \<and>
   highScore (endGame lowScoreState) = 10 \<and>
   storageLog (endGame lowScoreState) = []"
proof -
  have a: "score forfeitState = 12 \<and> highScore forfeitState = 10"
    and b: "score lowScoreState = 5 \<and> highScore lowScoreState = 10"
    and c: "storageLog forfeitState = []" "storageLog lowScoreState = []"
    by (simp_all add: forfeitState_def lowScoreState_def runningStart_def)
  from endGame_high_score [of forfeitState] endGame_high_score [of lowScoreState] a b
  show ?thesis
    by (simp add: c LOCAL_STORAGE_KEY_def)
qed

text \<open>
  C3. The claim: the ``End Game'' button, pressed while the game is running, makes the
  same transition as \<^verbatim>\<open>endGame\<close>, high-score check included. The handler of the button
  (line 237) is \<^verbatim>\<open>setGameStatus("over")\<close> alone. Evaluated on a running game with score
  12 and high score 10: the button leaves the high score at 10 and writes nothing, where
  \<^verbatim>\<open>endGame\<close> stores 12.
\<close>

theorem endGameClick_skips_high_score:
  "gameStatus forfeitState = Running \<and> score forfeitState = 12 \<and> highScore forfeitState = 10 \<and>
   endGameClick forfeitState = forfeitState\<lparr> gameStatus := Over \<rparr> \<and>
   highScore (endGameClick forfeitState) = 10 \<and>
   storageLog (endGameClick forfeitState) = storageLog forfeitState \<and>
   highScore (endGame forfeitState) = 12 \<and>
   storageLog (endGame forfeitState) = storageLog forfeitState @ [SetItem LOCAL_STORAGE_KEY 12] \<and>
   fire EndButton zeros forfeitState = Some (endGameClick forfeitState, zeros)"
  by (simp add: endGameClick_def endGame_def forfeitState_def runningStart_def Let_def)

section \<open>The tick interval\<close>

text \<open>
  C7. For a score \<open>sc \<ge> 0\<close>, \<^verbatim>\<open>speedMs\<close> is \<open>max(60, 140 - min(80, floor(sc / 5) * 10))\<close>,
  which lies between 60 and 140; it is 130 at score 7 and 60 at score 50; and it does not
  increase when the score does.
\<close>

theorem speedMs_formula:
  "(0 \<le> sc \<longrightarrow>
      speedMs sc = max 60 (140 - min 80 (sc div 5 * 10)) \<and>
      60 \<le> speedMs sc \<and> speedMs sc \<le> 140) \<and>
   speedMs 7 = 130 \<and> speedMs 50 = 60 \<and>
   (0 \<le> a \<and> a \<le> b \<longrightarrow> speedMs b \<le> speedMs a)"
proof (intro conjI impI)
  assume "0 \<le> sc"
  then have "0 \<le> sc div 5"
    by simp
  then show "60 \<le> speedMs sc" and "speedMs sc \<le> 140"
    by (simp_all add: speedMs_def Let_def)
next
  show "speedMs sc = max 60 (140 - min 80 (sc div 5 * 10))"
    by (simp add: speedMs_def Let_def)
next
  show "speedMs 7 = 130" and "speedMs 50 = 60"
    by (simp_all add: speedMs_def Let_def)
next
  assume "0 \<le> a \<and> a \<le> b"
  then have "a div 5 \<le> b div 5"
    by (simp add: zdiv_mono1)
  then show "speedMs b \<le> speedMs a"
    by (simp add: speedMs_def Let_def)
qed

theorem speedMs_formula_witness:
  "(0::int) \<le> 12 \<and> speedMs 12 = 120 \<and> (0::int) \<le> 7 \<and> (7::int) \<le> 50 \<and> speedMs 50 \<le> speedMs 7"
  using speedMs_formula [of 12 7 50] by simp

section \<open>Direction input\<close>

lemma isReversal_opposite: "isReversal cur nxt \<longleftrightarrow> nxt = opposite cur"
  by (cases cur; cases nxt) (simp_all add: isReversal_def)

lemma pendingDirection_applyPending: "pendingDirection (applyPending s) = None"
  by (simp add: applyPending_def split: option.splits)

lemma step_commits:
  assumes "snakeSegments s \<noteq> []" and "step rnd s = Some (s', rnd')"
  shows "movementDirection s' = movementDirection (applyPending s) \<and> pendingDirection s' = None"
proof -
  define nh where "nh = nextHeadOf (movementDirection s) (last (snakeSegments s))"
  show ?thesis
  proof (cases "\<not> onBoard nh \<or> nh \<in> set (snakeSegments s)")
    case True
    from step_collision [OF assms(1) nh_def True, of rnd] assms(2) show ?thesis
      by (auto simp: endGame_fields pendingDirection_applyPending)
  next
    case False
    then have ob: "onBoard nh" and fresh: "nh \<notin> set (snakeSegments s)" by auto
    show ?thesis
    proof (cases "nh = foodCell s")
      case True
      from step_eat [OF assms(1) nh_def ob fresh True, of rnd] assms(2) show ?thesis
        by (auto simp: pendingDirection_applyPending split: option.splits)
    next
      case False
      from step_move [OF assms(1) nh_def ob fresh False, of rnd] assms(2) show ?thesis
        by (auto simp: pendingDirection_applyPending)
    qed
  qed
qed

text \<open>
  C8. \<^verbatim>\<open>setDirectionImmediate\<close> changes nothing when the game is not running or when the
  requested direction is the opposite of the active one. In every other case it stores the
  request in the pending slot, whatever was there, and changes nothing else; the next run
  of \<^verbatim>\<open>step\<close> then makes it the active direction and empties the slot.
\<close>

theorem setDirectionImmediate_pending:
  "(gameStatus s \<noteq> Running \<or> nxt = opposite (movementDirection s) \<longrightarrow>
      setDirectionImmediate nxt s = s) \<and>
   (gameStatus s = Running \<and> nxt \<noteq> opposite (movementDirection s) \<longrightarrow>
      setDirectionImmediate nxt s = s\<lparr> pendingDirection := Some nxt \<rparr> \<and>
      (snakeSegments s \<noteq> [] \<longrightarrow>
         (\<forall>s' rnd'. step rnd (setDirectionImmediate nxt s) = Some (s', rnd') \<longrightarrow>
            movementDirection s' = nxt \<and> pendingDirection s' = None)))"
proof (intro conjI impI allI)
  assume "gameStatus s \<noteq> Running \<or> nxt = opposite (movementDirection s)"
  then show "setDirectionImmediate nxt s = s"
    by (auto simp: setDirectionImmediate_def isReversal_opposite)
next
  assume ok: "gameStatus s = Running \<and> nxt \<noteq> opposite (movementDirection s)"
  then show eq: "setDirectionImmediate nxt s = s\<lparr> pendingDirection := Some nxt \<rparr>"
    by (simp add: setDirectionImmediate_def isReversal_opposite)
  fix s' rnd'
  assume ne: "snakeSegments s \<noteq> []"
    and t: "step rnd (setDirectionImmediate nxt s) = Some (s', rnd')"
  let ?s2 = "s\<lparr> pendingDirection := Some nxt \<rparr>"
  have "step rnd ?s2 = Some (s', rnd')"
    using t unfolding eq .
  moreover have "snakeSegments ?s2 \<noteq> []"
    using ne by simp
  ultimately have "movementDirection s' = movementDirection (applyPending ?s2) \<and>
      pendingDirection s' = None"
    by (rule step_commits [rotated])
  then show "movementDirection s' = nxt" and "pendingDirection s' = None"
    by (simp_all add: applyPending_def)
qed

theorem setDirectionImmediate_pending_witness:
  "setDirectionImmediate Left runningStart = runningStart \<and>
   setDirectionImmediate Up initialState = initialState \<and>
   setDirectionImmediate Up runningStart = turnUpPending \<and>
   (\<exists>s'. step zeros (setDirectionImmediate Up runningStart) = Some (s', zeros) \<and>
         movementDirection s' = Up \<and> pendingDirection s' = None)"
proof -
  have a: "gameStatus runningStart \<noteq> Running \<or> Left = opposite (movementDirection runningStart)"
    and b: "gameStatus initialState \<noteq> Running \<or> Up = opposite (movementDirection initialState)"
    and c: "gameStatus runningStart = Running \<and> Up \<noteq> opposite (movementDirection runningStart)"
    and d: "snakeSegments runningStart \<noteq> []"
    by (simp_all add: runningStart_def initialState_def)
  have e: "\<exists>s'. step zeros turnUpPending = Some (s', zeros)"
    by (simp add: step_def applyPending_def turnUpPending_def runningStart_def
        Let_def BOARD_SIZE_def cellKey_def)
  from setDirectionImmediate_pending [of runningStart Left zeros] a
  have 1: "setDirectionImmediate Left runningStart = runningStart"
    by blast
  from setDirectionImmediate_pending [of initialState Up zeros] b
  have 2: "setDirectionImmediate Up initialState = initialState"
    by blast
  from setDirectionImmediate_pending [of runningStart Up zeros] c d
  have 3: "setDirectionImmediate Up runningStart = runningStart\<lparr> pendingDirection := Some Up \<rparr>"
    and 4: "\<forall>s' rnd'. step zeros (setDirectionImmediate Up runningStart) = Some (s', rnd') \<longrightarrow>
            movementDirection s' = Up \<and> pendingDirection s' = None"
    by blast+
  from e obtain s' where "step zeros (setDirectionImmediate Up runningStart) = Some (s', zeros)"
    unfolding 3 turnUpPending_def by blast
  with 4 have 5: "\<exists>s'. step zeros (setDirectionImmediate Up runningStart) = Some (s', zeros) \<and>
         movementDirection s' = Up \<and> pendingDirection s' = None"
    by blast
  from 1 2 3 5 show ?thesis
    unfolding turnUpPending_def by blast
qed

section \<open>Termination of the food placement\<close>



end
